theory Spec2Isabelle
  imports Main
begin

section \<open>The game engine of \<^verbatim>\<open>lib/game/_game.py\<close>\<close>

text \<open>
  The engine is written against three contracts (\<^verbatim>\<open>GameState\<close>, \<^verbatim>\<open>GameType\<close>,
  \<^verbatim>\<open>Agent\<close>) whose methods concrete games and agents override. A class is modelled as
  the record of its methods; a method that can raise returns a sum whose left side is the
  exception. State values are compared with HOL equality, as pyrsistent records are
  compared by value.
\<close>

subsection \<open>Exceptions and results\<close>

datatype py_error =
    NotImplementedError
  | ZeroDivisionError
  | AttributeError
  | SystemExit
  | Exception string

text \<open>
  What a call leaves behind: the value it returned and the world after it, or the
  exception it raised and the world at that point. A call that never returns has no
  outcome (\<open>None\<close> of the enclosing option).
\<close>

datatype ('r, 'w) outcome = Returned 'r 'w | Raised py_error 'w

fun returned :: "('r, 'w) outcome option \<Rightarrow> 'r option" where
  "returned (Some (Returned r w)) = Some r"
| "returned (Some (Raised e w)) = None"
| "returned None = None"

fun raised :: "('r, 'w) outcome option \<Rightarrow> py_error option" where
  "raised (Some (Raised e w)) = Some e"
| "raised (Some (Returned r w)) = None"
| "raised None = None"

subsection \<open>The \<^verbatim>\<open>GameState\<close> contract\<close>

text \<open>A pygame surface is an opaque object, named by a number.\<close>

datatype surface = Surface nat

text \<open>
  \<open>is_terminal\<close>, \<open>actions\<close>, \<open>act\<close> and \<open>draw\<close> are the overridable members of the
  class. \<open>act\<close> returns \<open>None\<close> for a rejected action. \<open>truthy\<close> is Python's
  \<^verbatim>\<open>bool(state)\<close>: a record is a mapping, and a mapping without entries is falsy.
\<close>

record ('s, 'a) GameState =
  is_terminal :: "'s \<Rightarrow> py_error + bool"
  actions :: "'s \<Rightarrow> py_error + 'a list"
  act :: "'s \<Rightarrow> 'a \<Rightarrow> py_error + 's option"
  draw :: "'s \<Rightarrow> py_error + surface"
  truthy :: "'s \<Rightarrow> bool"

text \<open>The base class itself: every member raises \<^verbatim>\<open>NotImplementedError\<close>.\<close>

definition GameState_base :: "('s \<Rightarrow> bool) \<Rightarrow> ('s, 'a) GameState" where
  "GameState_base t =
     \<lparr> is_terminal = (\<lambda>s. Inl NotImplementedError),
       actions = (\<lambda>s. Inl NotImplementedError),
       act = (\<lambda>s a. Inl NotImplementedError),
       draw = (\<lambda>s. Inl NotImplementedError),
       truthy = t \<rparr>"

text \<open>The two messages \<^verbatim>\<open>_action_is_valid\<close> prints.\<close>

datatype 'a printed =
    ERROR_terminal_state
  | ERROR_illegal_action 'a "'a list"

text \<open>
  \<^verbatim>\<open>GameState._action_is_valid(self, action)\<close>: the result (an exception of an
  accessor, \<open>None\<close>, or the state itself) and the lines printed.
\<close>

definition action_is_valid ::
  "('s, 'a) GameState \<Rightarrow> 's \<Rightarrow> 'a \<Rightarrow> (py_error + 's option) \<times> 'a printed list" where
  "action_is_valid C self action =
     (case is_terminal C self of
        Inl e \<Rightarrow> (Inl e, [])
      | Inr terminal \<Rightarrow>
          if terminal then (Inr None, [ERROR_terminal_state])
          else
            (case actions C self of
               Inl e \<Rightarrow> (Inl e, [])
             | Inr acts \<Rightarrow>
                 if action \<notin> set acts
                 then (Inr None, [ERROR_illegal_action action acts])
                 else (Inr (Some self), [])))"


subsection \<open>Agents, the game object and the world\<close>

text \<open>
  An agent is an object with two methods and whatever it remembers between calls
  (\<open>memory\<close>). A method reads the memory and returns the new one. The base class
  \<^verbatim>\<open>Agent\<close> raises in \<^verbatim>\<open>decide\<close> and does nothing in \<^verbatim>\<open>learn\<close>. Each position of
  the agent list is modelled as an object of its own.
\<close>

record ('s, 'a, 'm) Agent =
  decide :: "'m \<Rightarrow> 's \<Rightarrow> py_error + 'a \<times> 'm"
  learn :: "'m \<Rightarrow> 's list \<Rightarrow> nat \<Rightarrow> py_error + 'm"
  memory :: 'm

definition Agent_base :: "'m \<Rightarrow> ('s, 'a, 'm) Agent" where
  "Agent_base m =
     \<lparr> decide = (\<lambda>m state. Inl NotImplementedError),
       learn = (\<lambda>m states player_id. Inr m),
       memory = m \<rparr>"

text \<open>
  The attributes of a \<^verbatim>\<open>Game\<close> object that no method assigns after construction.
  \<open>game_type\<close> is \<^verbatim>\<open>game_type.init\<close> (the base class \<^verbatim>\<open>GameType\<close> returns \<^verbatim>\<open>None\<close>),
  \<open>state_class\<close> the class of the states it produces. \<open>screen\<close> is the attribute
  \<^verbatim>\<open>self.screen\<close>, \<open>None\<close> while it has never been assigned.
\<close>

record ('s, 'a, 'm) Game =
  game_type :: "('s, 'a, 'm) Agent list \<Rightarrow> 's option"
  state_class :: "('s, 'a) GameState"
  display :: bool
  screen :: "surface option"

text \<open>\<^verbatim>\<open>Game.__init__\<close> sets \<^verbatim>\<open>game_type\<close>, \<^verbatim>\<open>agents\<close>, \<^verbatim>\<open>display\<close> and the lock.\<close>

definition Game_init ::
  "(('s, 'a, 'm) Agent list \<Rightarrow> 's option) \<Rightarrow> ('s, 'a) GameState \<Rightarrow> bool \<Rightarrow> ('s, 'a, 'm) Game" where
  "Game_init gt C disp = \<lparr> game_type = gt, state_class = C, display = disp, screen = None \<rparr>"

datatype key = K_SPACE | K_y | K_n | K_other

datatype event = KEYDOWN key | QUIT | OtherEvent

text \<open>What the engine does to the outside: log records and timed waits.\<close>

datatype effect = Info string | Wait int

text \<open>
  What is painted on a surface: the picture of a state, and the three parts of the
  \<^verbatim>\<open>play again? (y/n)\<close> prompt.
\<close>

datatype paint = Blit surface | Rect_border | Rect_window | Blit_label

text \<open>
  Everything mutable or external: the agents of \<^verbatim>\<open>self.agents\<close>; the clock, as the
  milliseconds the successive calls of \<^verbatim>\<open>time.time()\<close> round to and the number of calls
  made so far; the events the successive calls of \<^verbatim>\<open>pygame.event.wait()\<close> return (a
  call on the empty list blocks for ever); the effects so far; what has been painted, on
  which surface; and whether the screen lock is held.
\<close>

record ('s, 'a, 'm) world =
  agents :: "('s, 'a, 'm) Agent list"
  clock :: "nat \<Rightarrow> int"
  reads :: nat
  events :: "event list"
  effects :: "effect list"
  painted :: "(surface \<times> paint) list"
  locked :: bool

definition now :: "('s, 'a, 'm) world \<Rightarrow> int \<times> ('s, 'a, 'm) world" where
  "now w = (clock w (reads w), w\<lparr>reads := Suc (reads w)\<rparr>)"

definition info :: "string \<Rightarrow> ('s, 'a, 'm) world \<Rightarrow> ('s, 'a, 'm) world" where
  "info msg w = w\<lparr>effects := effects w @ [Info msg]\<rparr>"

definition wait :: "int \<Rightarrow> ('s, 'a, 'm) world \<Rightarrow> ('s, 'a, 'm) world" where
  "wait ms w = w\<lparr>effects := effects w @ [Wait ms]\<rparr>"

subsection \<open>Generator functions\<close>

text \<open>
  \<^verbatim>\<open>_draw_state\<close>, \<^verbatim>\<open>_run_display\<close> and \<^verbatim>\<open>_play_again\<close> contain \<^verbatim>\<open>yield from\<close>, so a
  call builds a generator object and runs nothing of the body. The object records which
  body it would run. Every generator object is truthy.
\<close>

datatype 's generator =
    Gen_draw_state 's
  | Gen_play_again
  | Gen_run_display

definition draw_state ::
  "('s, 'a, 'm) Game \<Rightarrow> 's \<Rightarrow> ('s, 'a, 'm) world \<Rightarrow> 's generator \<times> ('s, 'a, 'm) world" where
  "draw_state G state w = (Gen_draw_state state, w)"

definition play_again ::
  "('s, 'a, 'm) Game \<Rightarrow> ('s, 'a, 'm) world \<Rightarrow> 's generator \<times> ('s, 'a, 'm) world" where
  "play_again G w = (Gen_play_again, w)"

text \<open>\<^verbatim>\<open>Game._run_display(self, screen, game_thread)\<close>, as \<^verbatim>\<open>Game.run\<close> calls it.\<close>

definition run_display ::
  "('s, 'a, 'm) Game \<Rightarrow> surface option \<Rightarrow> 't \<Rightarrow> ('s, 'a, 'm) world
     \<Rightarrow> 's generator \<times> ('s, 'a, 'm) world" where
  "run_display G scr game_thread w = (Gen_run_display, w)"

definition generator_truthy :: "'s generator \<Rightarrow> bool" where
  "generator_truthy g = True"

subsection \<open>The round driver\<close>

text \<open>The budgets \<^verbatim>\<open>(turn_wait, round_wait)\<close> at the head of \<^verbatim>\<open>_run_round\<close>.\<close>

definition wait_budgets :: "surface option \<Rightarrow> int \<Rightarrow> int \<times> int" where
  "wait_budgets scr speed =
     (if scr = None then (0, 0)
      else if speed = 2 then (0, 10)
      else if speed = 1 then (50, 100)
      else (500, 1000))"

text \<open>
  The loop of \<^verbatim>\<open>pause_on_turn\<close>: wait for events until the space key goes down.
\<close>

fun pause_loop :: "event list \<Rightarrow> event list option" where
  "pause_loop [] = None"
| "pause_loop (e # es) = (if e = KEYDOWN K_SPACE then Some es else pause_loop es)"

text \<open>
  The inner loop \<^verbatim>\<open>while new_state == None\<close> for the agent at index \<open>i\<close>: it returns the
  accepted state and the last \<^verbatim>\<open>start_t\<close>.
\<close>

partial_function (option) decide_loop ::
  "('s, 'a, 'm) Game \<Rightarrow> nat \<Rightarrow> 's \<Rightarrow> ('s, 'a, 'm) world
     \<Rightarrow> ('s \<times> int, ('s, 'a, 'm) world) outcome option" where
  "decide_loop G i state w =
     (case now w of (start_t, w1) \<Rightarrow>
        (case decide (agents w1 ! i) (memory (agents w1 ! i)) state of
           Inl e \<Rightarrow> Some (Raised e w1)
         | Inr (action, m) \<Rightarrow>
             (case w1\<lparr>agents := (agents w1)[i := (agents w1 ! i)\<lparr>memory := m\<rparr>]\<rparr> of w2 \<Rightarrow>
                (case act (state_class G) state action of
                   Inl e \<Rightarrow> Some (Raised e w2)
                 | Inr None \<Rightarrow> decide_loop G i state (info ''Invalid action performed!'' w2)
                 | Inr (Some new_state) \<Rightarrow>
                     Some (Returned (new_state, start_t)
                       (if truthy (state_class G) new_state then w2
                        else info ''Invalid action performed!'' w2))))))"

text \<open>
  The loop \<^verbatim>\<open>while not state.is_terminal\<close>, from the current \<^verbatim>\<open>state\<close>, \<^verbatim>\<open>states\<close> and
  \<^verbatim>\<open>i\<close>. It returns \<^verbatim>\<open>states\<close> as the loop leaves it, at a terminal state or at the
  \<^verbatim>\<open>break\<close> of a repeated state.
\<close>

partial_function (option) turn_loop ::
  "('s, 'a, 'm) Game \<Rightarrow> int \<Rightarrow> bool \<Rightarrow> 's \<Rightarrow> 's list \<Rightarrow> int \<Rightarrow> ('s, 'a, 'm) world
     \<Rightarrow> ('s list, ('s, 'a, 'm) world) outcome option" where
  "turn_loop G turn_wait pause_on_turn state states i w =
     (case is_terminal (state_class G) state of
        Inl e \<Rightarrow> Some (Raised e w)
      | Inr terminal \<Rightarrow>
          if terminal then Some (Returned states w)
          else if length (agents w) = 0 then Some (Raised ZeroDivisionError w)
          else
            (case decide_loop G (nat ((i + 1) mod int (length (agents w)))) state w of
               None \<Rightarrow> None
             | Some (Raised e w1) \<Rightarrow> Some (Raised e w1)
             | Some (Returned (new_state, start_t) w1) \<Rightarrow>
                 (case draw_state G new_state w1 of (g, w2) \<Rightarrow>
                    if new_state \<in> set states
                    then Some (Returned states
                           (info ''State has been repeated! Therefore, game is over.'' w2))
                    else
                      (case now w2 of (end_t, w3) \<Rightarrow>
                         (case (if pause_on_turn
                                then map_option (\<lambda>es. w3\<lparr>events := es\<rparr>) (pause_loop (events w3))
                                else Some w3) of
                            None \<Rightarrow> None
                          | Some w4 \<Rightarrow>
                              turn_loop G turn_wait pause_on_turn new_state (states @ [new_state])
                                ((i + 1) mod int (length (agents w)))
                                (if turn_wait - (end_t - start_t) > 0 \<and> display G
                                 then wait (turn_wait - (end_t - start_t)) w4
                                 else w4))))))"

text \<open>
  \<^verbatim>\<open>for player_id, agent in enumerate(self.agents): agent.learn(states, player_id)\<close>,
  from index \<open>player_id\<close> on: the agents after the calls made, and the exception that
  ended the loop if one did.
\<close>

fun learn_loop ::
  "'s list \<Rightarrow> nat \<Rightarrow> ('s, 'a, 'm) Agent list \<Rightarrow> py_error option \<times> ('s, 'a, 'm) Agent list" where
  "learn_loop states player_id [] = (None, [])"
| "learn_loop states player_id (agent # rest) =
     (case learn agent (memory agent) states player_id of
        Inl e \<Rightarrow> (Some e, agent # rest)
      | Inr m \<Rightarrow>
          (case learn_loop states (Suc player_id) rest of
             (r, rest') \<Rightarrow> (r, agent\<lparr>memory := m\<rparr> # rest')))"

text \<open>\<^verbatim>\<open>Game._run_round(self, speed, pause_on_turn, screen=None)\<close>.\<close>

definition run_round ::
  "('s, 'a, 'm) Game \<Rightarrow> int \<Rightarrow> bool \<Rightarrow> surface option \<Rightarrow> ('s, 'a, 'm) world
     \<Rightarrow> ('s list, ('s, 'a, 'm) world) outcome option" where
  "run_round G speed pause_on_turn scr w =
     (case game_type G (agents w) of
        None \<Rightarrow> Some (Raised AttributeError w)
      | Some state \<Rightarrow>
          (case draw_state G state w of (g, w0) \<Rightarrow>
             (case wait_budgets scr speed of (turn_wait, round_wait) \<Rightarrow>
                (case turn_loop G turn_wait pause_on_turn state [state] (- 1) w0 of
                   None \<Rightarrow> None
                 | Some (Raised e w1) \<Rightarrow> Some (Raised e w1)
                 | Some (Returned states w1) \<Rightarrow>
                     (case learn_loop states 0 (agents w1) of
                        (Some e, ags) \<Rightarrow> Some (Raised e (w1\<lparr>agents := ags\<rparr>))
                      | (None, ags) \<Rightarrow>
                          Some (Returned states (wait round_wait (w1\<lparr>agents := ags\<rparr>))))))))"

subsection \<open>The session driver\<close>

text \<open>
  The values \<^verbatim>\<open>play_again\<close> takes. Python's \<^verbatim>\<open>bool\<close> is a subclass of \<^verbatim>\<open>int\<close>.
\<close>

datatype py_value = PyNone | PyBool bool | PyInt int | PyStr string

fun py_truthy :: "py_value \<Rightarrow> bool" where
  "py_truthy PyNone = False"
| "py_truthy (PyBool b) = b"
| "py_truthy (PyInt n) = (n \<noteq> 0)"
| "py_truthy (PyStr s) = (s \<noteq> [])"

fun isinstance_int :: "py_value \<Rightarrow> bool" where
  "isinstance_int (PyInt n) = True"
| "isinstance_int (PyBool b) = True"
| "isinstance_int v = False"

fun int_value :: "py_value \<Rightarrow> int" where
  "int_value (PyInt n) = n"
| "int_value (PyBool b) = (if b then 1 else 0)"
| "int_value v = 0"

text \<open>
  The test that ends the loop of \<^verbatim>\<open>_run_game\<close>, with \<^verbatim>\<open>games\<close> already extended. The
  call \<^verbatim>\<open>self._play_again()\<close> is evaluated only for \<^verbatim>\<open>'query'\<close> and leaves the world
  as it is.
\<close>

definition stop_session ::
  "('s, 'a, 'm) Game \<Rightarrow> 's list list \<Rightarrow> py_value \<Rightarrow> ('s, 'a, 'm) world \<Rightarrow> bool" where
  "stop_session G games pa w =
     (if \<not> py_truthy pa then True
      else if pa = PyStr ''query'' \<and> \<not> generator_truthy (fst (play_again G w)) then True
      else isinstance_int pa \<and> int (length games) < int_value pa)"

text \<open>
  \<^verbatim>\<open>Game._run_game(self, games, screen, play_again, speed, pause_on_turn)\<close>. The list
  \<^verbatim>\<open>games\<close> is extended in place; the outcome holds it as the loop leaves it.
\<close>

partial_function (option) run_game ::
  "('s, 'a, 'm) Game \<Rightarrow> 's list list \<Rightarrow> surface option \<Rightarrow> py_value \<Rightarrow> int \<Rightarrow> bool
     \<Rightarrow> ('s, 'a, 'm) world \<Rightarrow> ('s list list, ('s, 'a, 'm) world) outcome option" where
  "run_game G games scr pa speed pause_on_turn w =
     (case run_round G speed pause_on_turn None w of
        None \<Rightarrow> None
      | Some (Raised e w1) \<Rightarrow> Some (Raised e w1)
      | Some (Returned states w1) \<Rightarrow>
          if stop_session G (games @ [states]) pa w1
          then Some (Returned (games @ [states]) w1)
          else run_game G (games @ [states]) scr pa speed pause_on_turn w1)"

subsection \<open>The bodies of the generator functions\<close>

text \<open>
  What iterating one of the generator objects would run, up to the first
  \<^verbatim>\<open>yield from self._screen_lock\<close>: the body ends, fails, or arrives at the lock.
  Reading \<^verbatim>\<open>self.screen\<close> raises \<^verbatim>\<open>AttributeError\<close> while the attribute has never been
  assigned.
\<close>

datatype ('r, 'w) iterated = Finished 'r 'w | Failed py_error 'w | At_lock 'w

text \<open>The body of \<^verbatim>\<open>_draw_state\<close>.\<close>

definition draw_state_body ::
  "('s, 'a, 'm) Game \<Rightarrow> 's \<Rightarrow> ('s, 'a, 'm) world \<Rightarrow> (unit, ('s, 'a, 'm) world) iterated" where
  "draw_state_body G state w =
     (if display G then
        (case draw (state_class G) state of
           Inl e \<Rightarrow> Failed e w
         | Inr surf \<Rightarrow> At_lock w)
      else Finished () w)"

text \<open>
  The body of \<^verbatim>\<open>_play_again\<close>; \<open>ask\<close> is what \<^verbatim>\<open>cli.ask_yn('Play again?')\<close> answers and
  \<open>fonts\<close> is what the three calls that render the label raise, if anything.
\<close>

definition play_again_body ::
  "('s, 'a, 'm) Game \<Rightarrow> bool \<Rightarrow> py_error option \<Rightarrow> ('s, 'a, 'm) world
     \<Rightarrow> (bool, ('s, 'a, 'm) world) iterated" where
  "play_again_body G ask fonts w =
     (if \<not> display G then Finished ask w
      else
        (case fonts of
           Some e \<Rightarrow> Failed e w
         | None \<Rightarrow>
             (case screen G of
                None \<Rightarrow> Failed AttributeError w
              | Some scr \<Rightarrow>
                  At_lock (w\<lparr>painted := painted w @ [(scr, Rect_border), (scr, Rect_window)]\<rparr>))))"

subsection \<open>Observing outcomes\<close>

text \<open>The world an outcome ends in, and the effects of a call that came back.\<close>

fun final :: "('r, 'w) outcome \<Rightarrow> 'w" where
  "final (Returned r w) = w"
| "final (Raised e w) = w"

fun effects_of :: "('r, ('s, 'a, 'm) world) outcome option \<Rightarrow> effect list" where
  "effects_of None = []"
| "effects_of (Some r) = effects (final r)"

text \<open>
  What one pass of the loop over \<^verbatim>\<open>enumerate(self.agents)\<close> does to an agent whose
  \<^verbatim>\<open>learn\<close> returns, and the memories of the agents after a call that came back.
\<close>

definition learned :: "'s list \<Rightarrow> nat \<Rightarrow> ('s, 'a, 'm) Agent \<Rightarrow> ('s, 'a, 'm) Agent" where
  "learned states player_id agent =
     (case learn agent (memory agent) states player_id of
        Inl e \<Rightarrow> agent
      | Inr m \<Rightarrow> agent\<lparr>memory := m\<rparr>)"

definition learned_all :: "'s list \<Rightarrow> ('s, 'a, 'm) Agent list \<Rightarrow> ('s, 'a, 'm) Agent list" where
  "learned_all states ags = map (\<lambda>(player_id, agent). learned states player_id agent) (enumerate 0 ags)"

fun memories_of :: "('r, ('s, 'a, 'm) world) outcome option \<Rightarrow> 'm list" where
  "memories_of None = []"
| "memories_of (Some r) = map memory (agents (final r))"

text \<open>
  What a round leaves alone: the screen, the lock, the clock, and the methods of the
  agents. Only the memories of the agents, the number of clock readings, the events and
  the effects change.
\<close>

definition untouched :: "('s, 'a, 'm) world \<Rightarrow> ('s, 'a, 'm) world \<Rightarrow> bool" where
  "untouched w w' \<longleftrightarrow>
     painted w' = painted w \<and> locked w' = locked w \<and> clock w' = clock w
     \<and> map decide (agents w') = map decide (agents w)
     \<and> map learn (agents w') = map learn (agents w)"


text \<open>
  Two games with the same rules: they may differ in \<^verbatim>\<open>display\<close>, in \<^verbatim>\<open>screen\<close> and in
  what \<^verbatim>\<open>draw\<close> renders.
\<close>

definition same_rules :: "('s, 'a, 'm) Game \<Rightarrow> ('s, 'a, 'm) Game \<Rightarrow> bool" where
  "same_rules G G' \<longleftrightarrow>
     game_type G' = game_type G
     \<and> is_terminal (state_class G') = is_terminal (state_class G)
     \<and> actions (state_class G') = actions (state_class G)
     \<and> act (state_class G') = act (state_class G)
     \<and> truthy (state_class G') = truthy (state_class G)"

text \<open>Two worlds, and two outcomes, that differ in the logged and timed effects only.\<close>

definition same_but_effects :: "('s, 'a, 'm) world \<Rightarrow> ('s, 'a, 'm) world \<Rightarrow> bool" where
  "same_but_effects w w' \<longleftrightarrow>
     agents w' = agents w \<and> clock w' = clock w \<and> reads w' = reads w
     \<and> events w' = events w \<and> painted w' = painted w \<and> locked w' = locked w"

fun alike :: "('r, ('s, 'a, 'm) world) outcome \<Rightarrow> ('r, ('s, 'a, 'm) world) outcome \<Rightarrow> bool" where
  "alike (Returned r w) (Returned r' w') \<longleftrightarrow> r' = r \<and> same_but_effects w w'"
| "alike (Raised e w) (Raised e' w') \<longleftrightarrow> e' = e \<and> same_but_effects w w'"
| "alike (Returned r w) (Raised e' w') \<longleftrightarrow> False"
| "alike (Raised e w) (Returned r' w') \<longleftrightarrow> False"

subsection \<open>Example games and agents\<close>

text \<open>A state class that overrides nothing of \<^verbatim>\<open>GameState\<close>.\<close>

definition bare_class :: "(nat, nat) GameState" where
  "bare_class = GameState_base (\<lambda>s. True)"

text \<open>
  A state class that overrides \<^verbatim>\<open>is_terminal\<close> only: every state is terminal, and
  \<^verbatim>\<open>actions\<close> and \<^verbatim>\<open>act\<close> are those of \<^verbatim>\<open>GameState\<close>.
\<close>

definition over_class :: "(nat, nat) GameState" where
  "over_class = (GameState_base (\<lambda>s. True))\<lparr>is_terminal := (\<lambda>s. Inr True)\<rparr>"

text \<open>A game that flips between the states 0 and 1 for ever; its only action is 0.\<close>

definition flip_class :: "(nat, nat) GameState" where
  "flip_class =
     \<lparr> is_terminal = (\<lambda>s. Inr False),
       actions = (\<lambda>s. Inr [0]),
       act = (\<lambda>s a. Inr (if a = 0 then Some (1 - s) else None)),
       draw = (\<lambda>s. Inr (Surface s)),
       truthy = (\<lambda>s. True) \<rparr>"

text \<open>A game that counts from 0 to 2 in steps of 1 and is over at 2.\<close>

definition count_class :: "(nat, nat) GameState" where
  "count_class =
     \<lparr> is_terminal = (\<lambda>s. Inr (2 \<le> s)),
       actions = (\<lambda>s. Inr (if 2 \<le> s then [] else [1])),
       act = (\<lambda>s a. Inr (if s < 2 \<and> a = 1 then Some (s + a) else None)),
       draw = (\<lambda>s. Inr (Surface s)),
       truthy = (\<lambda>s. True) \<rparr>"

text \<open>
  An agent that always proposes \<open>a\<close> and whose \<^verbatim>\<open>learn\<close> writes down the player id and
  the length of the trajectory it was given.
\<close>

definition player :: "nat \<Rightarrow> (nat, nat, nat list) Agent" where
  "player a =
     \<lparr> decide = (\<lambda>m s. Inr (a, m)),
       learn = (\<lambda>m states player_id. Inr (m @ [player_id, length states])),
       memory = [] \<rparr>"

text \<open>An agent that proposes the illegal action 7 once and the action 1 from then on.\<close>

definition fumbler :: "(nat, nat, nat list) Agent" where
  "fumbler =
     \<lparr> decide = (\<lambda>m s. if m = [] then Inr (7, [7]) else Inr (1, m)),
       learn = (\<lambda>m states player_id. Inr (m @ [player_id, length states])),
       memory = [] \<rparr>"

text \<open>An agent whose \<^verbatim>\<open>learn\<close> raises.\<close>

definition dunce :: "(nat, nat, nat list) Agent" where
  "dunce =
     \<lparr> decide = (\<lambda>m s. Inr (1, m)),
       learn = (\<lambda>m states player_id. Inl (Exception ''learn failed'')),
       memory = [] \<rparr>"

text \<open>A world whose clock advances 7 ms from one reading to the next.\<close>

definition world0 :: "(nat, nat, nat list) Agent list \<Rightarrow> (nat, nat, nat list) world" where
  "world0 ags =
     \<lparr> agents = ags, clock = (\<lambda>k. 7 * int k), reads = 0, events = [], effects = [],
       painted = [], locked = False \<rparr>"

definition flip_game :: "bool \<Rightarrow> (nat, nat, nat list) Game" where
  "flip_game disp = Game_init (\<lambda>ags. Some 0) flip_class disp"

definition count_game :: "bool \<Rightarrow> (nat, nat, nat list) Game" where
  "count_game disp = Game_init (\<lambda>ags. Some 0) count_class disp"

section \<open>Properties\<close>

lemmas engine_defs =
  now_def info_def wait_def draw_state_def play_again_def generator_truthy_def
  wait_budgets_def stop_session_def run_round_def

lemmas example_defs =
  flip_class_def count_class_def player_def fumbler_def dunce_def world0_def
  flip_game_def count_game_def Game_init_def

subsection \<open>The validity check\<close>

text \<open>
  C7. \<^verbatim>\<open>_action_is_valid\<close> returns \<^verbatim>\<open>None\<close> exactly when \<^verbatim>\<open>is_terminal\<close> is true, or is
  false with the action not among \<^verbatim>\<open>actions\<close>; it returns the state itself exactly when
  the state is not terminal and the action is among \<^verbatim>\<open>actions\<close>; and it raises exactly
  what \<^verbatim>\<open>is_terminal\<close> raises, or what \<^verbatim>\<open>actions\<close> raises at a state that is not
  terminal. \<^verbatim>\<open>GameState.act\<close> itself does not call the check: on the base class, \<^verbatim>\<open>act\<close>
  and the check both raise \<^verbatim>\<open>NotImplementedError\<close> at every state and action.
\<close>

theorem action_is_valid_check:
  "(fst (action_is_valid C s a) = Inr None
      \<longleftrightarrow> is_terminal C s = Inr True
          \<or> is_terminal C s = Inr False \<and> (\<exists>acts. actions C s = Inr acts \<and> a \<notin> set acts))
   \<and> (fst (action_is_valid C s a) = Inr (Some s')
      \<longleftrightarrow> s' = s \<and> is_terminal C s = Inr False
          \<and> (\<exists>acts. actions C s = Inr acts \<and> a \<in> set acts))
   \<and> (fst (action_is_valid C s a) = Inl e
      \<longleftrightarrow> is_terminal C s = Inl e \<or> is_terminal C s = Inr False \<and> actions C s = Inl e)
   \<and> act (GameState_base t) s a = Inl NotImplementedError
   \<and> fst (action_is_valid (GameState_base t) s a) = Inl NotImplementedError"
  by (auto simp add: action_is_valid_def GameState_base_def split: sum.splits)

text \<open>
  The check on the counting game, and at a terminal state whose \<^verbatim>\<open>actions\<close> raises: the
  check returns \<^verbatim>\<open>None\<close> there without reading \<^verbatim>\<open>actions\<close>.
\<close>

theorem action_is_valid_check_witness:
  "fst (action_is_valid count_class 1 1) = Inr (Some 1)
   \<and> fst (action_is_valid count_class 1 5) = Inr None
   \<and> fst (action_is_valid count_class 2 1) = Inr None
   \<and> fst (action_is_valid over_class 0 0) = Inr None
   \<and> actions over_class 0 = Inl NotImplementedError"
proof -
  have "fst (action_is_valid count_class 1 1) = Inr (Some 1)"
    using action_is_valid_check [of count_class 1 1 1] by (simp add: count_class_def)
  moreover have "fst (action_is_valid count_class 1 5) = Inr None"
    using action_is_valid_check [of count_class 1 5] by (simp add: count_class_def)
  moreover have "fst (action_is_valid count_class 2 1) = Inr None"
    using action_is_valid_check [of count_class 2 1] by (simp add: count_class_def)
  moreover have "fst (action_is_valid over_class 0 0) = Inr None"
    using action_is_valid_check [of over_class 0 0] by (simp add: over_class_def GameState_base_def)
  moreover have "actions over_class 0 = Inl NotImplementedError"
    by (simp add: over_class_def GameState_base_def)
  ultimately show ?thesis by blast
qed

text \<open>
  \<^verbatim>\<open>act\<close> and the check raise on a state of the base class, and \<^verbatim>\<open>act\<close> raises at a
  terminal state of a class that does not override it.
\<close>

theorem act_raises_counterexample:
  "act bare_class 0 0 = Inl NotImplementedError
   \<and> fst (action_is_valid bare_class 0 0) = Inl NotImplementedError
   \<and> is_terminal over_class 0 = Inr True
   \<and> act over_class 0 0 = Inl NotImplementedError"
  by (simp add: bare_class_def over_class_def GameState_base_def action_is_valid_def)

subsection \<open>Transitions of a concrete game\<close>




subsection \<open>The session driver\<close>

lemma count_round:
  "\<exists>w1. run_round (count_game False) 2 False None (world0 [player 1])
     = Some (Returned [0, 1, 2] w1)"
  by (simp add: engine_defs example_defs turn_loop.simps decide_loop.simps)

text \<open>
  C1. With \<^verbatim>\<open>play_again\<close> an integer \<open>n \<ge> 2\<close>, \<^verbatim>\<open>_run_game\<close> on an empty list stops after
  the first round that returns: the test \<^verbatim>\<open>len(games) < play_again\<close> holds at once, so
  the session holds exactly one trajectory, not \<open>n\<close>.
\<close>

theorem fixed_count_stops_after_first_round:
  assumes "run_round G speed p None w = Some (Returned states w1)" and "2 \<le> n"
  shows "run_game G [] scr (PyInt n) speed p w = Some (Returned [states] w1)"
  using assms by (subst run_game.simps) (simp add: stop_session_def)

theorem fixed_count_stops_after_first_round_witness:
  "(2::int) \<le> 3 \<and>
   returned (run_game (count_game False) [] None (PyInt 3) 2 False (world0 [player 1]))
     = Some [[0, 1, 2]]"
proof -
  from count_round obtain w1 where
    r: "run_round (count_game False) 2 False None (world0 [player 1])
          = Some (Returned [0, 1, 2] w1)" ..
  from fixed_count_stops_after_first_round [OF r, of 3 None] show ?thesis by simp
qed

text \<open>With \<^verbatim>\<open>play_again = 1\<close> the same test never holds, and the session never returns.\<close>

lemma fixed_count_one_step:
  assumes "run_game G games scr pa speed p w = Some r"
  shows "pa = PyInt 1 \<longrightarrow> returned (Some r) = None"
proof (rule run_game.raw_induct
    [where P = "\<lambda>G games scr pa speed p w r. pa = PyInt 1 \<longrightarrow> returned (Some r) = None",
      OF _ assms], goal_cases)
  case (1 f G games scr pa speed p w r)
  from 1(2) 1(1) show ?case
    by (auto simp: stop_session_def generator_truthy_def
        split: option.splits outcome.splits if_splits)
qed

lemma fixed_count_one_never_returns:
  "returned (run_game G games scr (PyInt 1) speed p w) = None"
proof (cases "run_game G games scr (PyInt 1) speed p w")
  case None
  then show ?thesis by simp
next
  case (Some r)
  from fixed_count_one_step [OF this] show ?thesis using Some by simp
qed

lemma query_step:
  assumes "run_game G games scr pa speed p w = Some r"
  shows "pa = PyStr ''query'' \<longrightarrow> returned (Some r) = None"
proof (rule run_game.raw_induct
    [where P = "\<lambda>G games scr pa speed p w r.
        pa = PyStr ''query'' \<longrightarrow> returned (Some r) = None",
      OF _ assms], goal_cases)
  case (1 f G games scr pa speed p w r)
  from 1(2) 1(1) show ?case
    by (auto simp: stop_session_def generator_truthy_def
        split: option.splits outcome.splits if_splits)
qed

text \<open>
  C4. With \<^verbatim>\<open>play_again = 'query'\<close> the session never returns normally, whatever the
  user would answer: \<^verbatim>\<open>self._play_again()\<close> is a generator object, which is truthy, so
  the test that ends the loop never holds and no prompt is ever shown.
\<close>

theorem query_session_never_returns:
  "returned (run_game G games scr (PyStr ''query'') speed p w) = None"
proof (cases "run_game G games scr (PyStr ''query'') speed p w")
  case None
  then show ?thesis by simp
next
  case (Some r)
  from query_step [OF this] show ?thesis using Some by simp
qed

theorem query_session_never_returns_witness:
  "returned (run_game (count_game False) [] None (PyStr ''query'') 2 False (world0 [player 1]))
     = None
   \<and> stop_session (count_game False) [[0, 1, 2]] (PyStr ''query'') (world0 [player 1]) = False"
  using query_session_never_returns
    [of "count_game False" "[]" None 2 False "world0 [player 1]"]
  by (simp add: stop_session_def generator_truthy_def)

lemma run_game_speed_step:
  assumes "run_game G games scr pa speed p w = Some r"
  shows "run_game G games scr' pa speed' p w = Some r"
proof (rule run_game.raw_induct
    [where P = "\<lambda>G games scr pa speed p w r. run_game G games scr' pa speed' p w = Some r",
      OF _ assms], goal_cases)
  case (1 f G games scr pa speed p w r)
  have wb: "\<And>s. wait_budgets None s = (0, 0)"
    by (simp add: wait_budgets_def)
  have rr: "run_round G speed' p None w = run_round G speed p None w"
    unfolding run_round_def wb by (rule refl)
  from 1(2) 1(1) show ?case
    by (subst run_game.simps) (auto simp: rr split: option.splits outcome.splits if_splits)
qed

text \<open>
  C3. A session does not depend on the speed setting or on the screen: \<^verbatim>\<open>_run_game\<close>
  calls \<^verbatim>\<open>_run_round\<close> without its \<^verbatim>\<open>screen\<close>, so every round of a session runs with the
  budgets 0 ms and 0 ms.
\<close>

theorem run_game_ignores_speed_and_screen:
  "run_game G games scr pa speed p w = run_game G games scr' pa speed' p w"
proof (cases "run_game G games scr pa speed p w")
  case (Some r)
  from run_game_speed_step [OF this] show ?thesis using Some by simp
next
  case None
  show ?thesis
  proof (cases "run_game G games scr' pa speed' p w")
    case (Some r)
    from run_game_speed_step [OF this] None show ?thesis by simp
  next
    case None': None
    with None show ?thesis by simp
  qed
qed

text \<open>
  At speed 0, with display and a clock that advances 7 ms per reading: a session waits
  0 ms once, where a round that is given the screen waits 493 ms after each turn and
  1000 ms at its end.
\<close>

theorem run_game_ignores_speed_and_screen_witness:
  "effects_of (run_game (count_game True) [] (Some (Surface 0)) PyNone 0 False
      (world0 [player 1])) = [Wait 0]
   \<and> effects_of (run_round (count_game True) 0 False (Some (Surface 0)) (world0 [player 1]))
      = [Wait 493, Wait 493, Wait 1000]"
proof -
  have "run_game (count_game True) [] (Some (Surface 0)) PyNone 0 False (world0 [player 1])
      = run_game (count_game True) [] None PyNone 2 False (world0 [player 1])"
    by (rule run_game_ignores_speed_and_screen)
  moreover have
    "effects_of (run_game (count_game True) [] None PyNone 2 False (world0 [player 1]))
       = [Wait 0]"
    by (subst run_game.simps)
      (simp add: engine_defs example_defs turn_loop.simps decide_loop.simps)
  moreover have
    "effects_of (run_round (count_game True) 0 False (Some (Surface 0)) (world0 [player 1]))
       = [Wait 493, Wait 493, Wait 1000]"
    by (simp add: engine_defs example_defs turn_loop.simps decide_loop.simps)
  ultimately show ?thesis by simp
qed

subsection \<open>The round driver\<close>

lemma map_update_same:
  assumes "f y = f (xs ! i)"
  shows "map f (xs[i := y]) = map f xs"
proof (rule nth_equalityI)
  show "length (map f (xs[i := y])) = length (map f xs)" by simp
next
  fix j
  assume "j < length (map f (xs[i := y]))"
  then show "map f (xs[i := y]) ! j = map f xs ! j"
    using assms by (cases "i = j") simp_all
qed

lemma untouched_refl: "untouched w w"
  by (simp add: untouched_def)

lemma untouched_trans: "untouched w w1 \<Longrightarrow> untouched w1 w2 \<Longrightarrow> untouched w w2"
  by (simp add: untouched_def)

lemma untouched_info: "untouched w (info msg w') = untouched w w'"
  by (simp add: untouched_def info_def)

lemma untouched_wait: "untouched w (wait ms w') = untouched w w'"
  by (simp add: untouched_def wait_def)

lemma untouched_length: "untouched w w' \<Longrightarrow> length (agents w') = length (agents w)"
  by (auto simp: untouched_def dest: arg_cong [where f = length])

lemma untouched_step:
  "untouched w (w\<lparr>reads := k, agents := (agents w)[i := (agents w ! i)\<lparr>memory := m\<rparr>]\<rparr>)"
  by (simp add: untouched_def map_update_same)

lemma decide_loop_accepts:
  assumes "decide (agents w ! i) (memory (agents w ! i)) state = Inr (a, m)"
    and "act (state_class G) state a = Inr (Some s')"
  shows "\<exists>w1. decide_loop G i state w = Some (Returned (s', clock w (reads w)) w1)
           \<and> untouched w w1 \<and> events w1 = events w"
proof -
  let ?w2 = "w\<lparr>reads := Suc (reads w), agents := (agents w)[i := (agents w ! i)\<lparr>memory := m\<rparr>]\<rparr>"
  have u: "untouched w ?w2" by (rule untouched_step)
  have e: "events (info ''Invalid action performed!'' ?w2) = events w" by (simp add: info_def)
  have "decide_loop G i state w = Some (Returned (s', clock w (reads w))
          (if truthy (state_class G) s' then ?w2 else info ''Invalid action performed!'' ?w2))"
    using assms by (subst decide_loop.simps) (simp add: now_def)
  moreover have "untouched w (if truthy (state_class G) s' then ?w2 else info ''Invalid action performed!'' ?w2)"
    using u by (simp add: untouched_info)
  moreover have "events (if truthy (state_class G) s' then ?w2 else info ''Invalid action performed!'' ?w2) = events w"
    using e by simp
  ultimately show ?thesis by blast
qed




lemma turn_repeat:
  assumes "is_terminal (state_class G) state = Inr False"
    and "agents w \<noteq> []"
    and "decide (agents w ! nat ((i + 1) mod int (length (agents w))))
           (memory (agents w ! nat ((i + 1) mod int (length (agents w))))) state = Inr (a, m)"
    and "act (state_class G) state a = Inr (Some s')"
    and "s' \<in> set states"
  shows "\<exists>w'. turn_loop G tw p state states i w = Some (Returned states w') \<and> untouched w w'"
proof -
  from decide_loop_accepts [OF assms(3,4)] obtain w1 where
    d: "decide_loop G (nat ((i + 1) mod int (length (agents w)))) state w
          = Some (Returned (s', clock w (reads w)) w1)"
    and u: "untouched w w1" by blast
  show ?thesis
    using assms(1,2,5) d u
    by (subst turn_loop.simps) (simp add: draw_state_def untouched_info)
qed

lemma turn_fresh:
  assumes "is_terminal (state_class G) state = Inr False"
    and "agents w \<noteq> []"
    and "decide (agents w ! nat ((i + 1) mod int (length (agents w))))
           (memory (agents w ! nat ((i + 1) mod int (length (agents w))))) state = Inr (a, m)"
    and "act (state_class G) state a = Inr (Some s')"
    and "s' \<notin> set states"
    and "p \<longrightarrow> pause_loop (events w) \<noteq> None"
  shows "\<exists>w'. turn_loop G tw p state states i w
            = turn_loop G tw p s' (states @ [s']) ((i + 1) mod int (length (agents w))) w'
          \<and> untouched w w'"
proof -
  from decide_loop_accepts [OF assms(3,4)] obtain w1 where
    d: "decide_loop G (nat ((i + 1) mod int (length (agents w)))) state w
          = Some (Returned (s', clock w (reads w)) w1)"
    and u: "untouched w w1" and ev: "events w1 = events w" by blast
  show ?thesis
  proof (cases p)
    case False
    with assms(1,2,5) d u show ?thesis
      by (subst turn_loop.simps)
        (auto simp add: draw_state_def now_def untouched_wait untouched_def wait_def intro!: exI)
  next
    case True
    with assms(6) obtain es where es: "pause_loop (events w) = Some es" by auto
    with True assms(1,2,5) d u ev show ?thesis
      by (subst turn_loop.simps)
        (auto simp add: draw_state_def now_def untouched_wait untouched_def wait_def intro!: exI)
  qed
qed

lemma turn_index: "n \<noteq> 0 \<Longrightarrow> nat (k mod int n) < n"
  using pos_mod_bound [of "int n" k] pos_mod_sign [of "int n" k] by linarith

lemma agents_nth_decide:
  assumes "untouched w w'" and "j < length (agents w)"
  shows "decide (agents w' ! j) = decide (agents w ! j)"
proof -
  from assms(1) have m: "map decide (agents w') = map decide (agents w)"
    by (simp add: untouched_def)
  from assms have l: "j < length (agents w')" by (simp add: untouched_length)
  have "decide (agents w' ! j) = map decide (agents w') ! j" using l by simp
  also have "\<dots> = map decide (agents w) ! j" by (simp only: m)
  also have "\<dots> = decide (agents w ! j)" using assms(2) by simp
  finally show ?thesis .
qed

lemma agents_nth_learn:
  assumes "untouched w w'" and "j < length (agents w)"
  shows "learn (agents w' ! j) = learn (agents w ! j)"
proof -
  from assms(1) have m: "map learn (agents w') = map learn (agents w)"
    by (simp add: untouched_def)
  from assms have l: "j < length (agents w')" by (simp add: untouched_length)
  have "learn (agents w' ! j) = map learn (agents w') ! j" using l by simp
  also have "\<dots> = map learn (agents w) ! j" by (simp only: m)
  also have "\<dots> = learn (agents w ! j)" using assms(2) by simp
  finally show ?thesis .
qed

lemma learn_loop_all:
  assumes "\<forall>j<length ags. \<exists>m. learn (ags ! j) (memory (ags ! j)) states (k + j) = Inr m"
  shows "learn_loop states k ags
     = (None, map (\<lambda>(player_id, agent). learned states player_id agent) (enumerate k ags))"
  using assms
proof (induction ags arbitrary: k)
  case Nil
  then show ?case by simp
next
  case (Cons ag ags)
  from Cons.prems have h: "\<exists>m. learn ag (memory ag) states k = Inr m"
    by (auto dest: spec [of _ 0])
  have t: "\<forall>j<length ags. \<exists>m. learn (ags ! j) (memory (ags ! j)) states (Suc k + j) = Inr m"
  proof (intro allI impI)
    fix j assume "j < length ags"
    with Cons.prems have "\<exists>m. learn ((ag # ags) ! Suc j) (memory ((ag # ags) ! Suc j)) states (k + Suc j) = Inr m"
      by (auto dest!: spec [of _ "Suc j"])
    then show "\<exists>m. learn (ags ! j) (memory (ags ! j)) states (Suc k + j) = Inr m" by simp
  qed
  from h obtain m where m: "learn ag (memory ag) states k = Inr m" ..
  show ?case
    by (simp add: m Cons.IH [OF t] learned_def)
qed

lemma learn_loop_first_failure:
  assumes "j < length ags"
    and "learn (ags ! j) (memory (ags ! j)) states (k + j) = Inl e"
    and "\<forall>i<j. \<exists>m. learn (ags ! i) (memory (ags ! i)) states (k + i) = Inr m"
  shows "learn_loop states k ags
     = (Some e, map (\<lambda>(player_id, agent). learned states player_id agent) (enumerate k (take j ags))
          @ drop j ags)"
  using assms
proof (induction ags arbitrary: k j)
  case Nil
  then show ?case by simp
next
  case (Cons ag ags)
  show ?case
  proof (cases j)
    case 0
    with Cons.prems show ?thesis by simp
  next
    case (Suc j')
    from Cons.prems(3) Suc have "\<exists>m. learn ag (memory ag) states k = Inr m"
      by (auto dest: spec [of _ 0])
    then obtain m where m: "learn ag (memory ag) states k = Inr m" ..
    have a: "j' < length ags" using Cons.prems(1) Suc by simp
    have b: "learn (ags ! j') (memory (ags ! j')) states (Suc k + j') = Inl e"
      using Cons.prems(2) Suc by simp
    have c: "\<forall>i<j'. \<exists>m. learn (ags ! i) (memory (ags ! i)) states (Suc k + i) = Inr m"
    proof (intro allI impI)
      fix i assume "i < j'"
      then have "Suc i < j" using Suc by simp
      with Cons.prems(3) have "\<exists>m. learn ((ag # ags) ! Suc i) (memory ((ag # ags) ! Suc i)) states (k + Suc i) = Inr m"
        by blast
      then show "\<exists>m. learn (ags ! i) (memory (ags ! i)) states (Suc k + i) = Inr m" by simp
    qed
    show ?thesis
      by (simp add: Suc m Cons.IH [OF a b c] learned_def)
  qed
qed

text \<open>
  C2. In a game that starts at \<open>A\<close>, where every agent's action leads from \<open>A\<close> to
  \<open>B \<noteq> A\<close> and from \<open>B\<close> back to \<open>A\<close>, the round ends at the first repeated state with
  the trajectory \<open>[A, B]\<close>: the test \<^verbatim>\<open>new_state in states\<close> leaves the loop before the
  repeated state is appended.
\<close>

theorem two_cycle_stops_at_repeat:
  assumes init: "game_type G (agents w) = Some A"
    and neq: "A \<noteq> B"
    and tA: "is_terminal (state_class G) A = Inr False"
    and tB: "is_terminal (state_class G) B = Inr False"
    and ags: "agents w \<noteq> []"
    and dA: "\<forall>ag\<in>set (agents w). \<forall>m. \<exists>a m'. decide ag m A = Inr (a, m')
                \<and> act (state_class G) A a = Inr (Some B)"
    and dB: "\<forall>ag\<in>set (agents w). \<forall>m. \<exists>b m'. decide ag m B = Inr (b, m')
                \<and> act (state_class G) B b = Inr (Some A)"
    and lr: "\<forall>ag\<in>set (agents w). \<forall>m states k. \<exists>m'. learn ag m states k = Inr m'"
    and pz: "p \<longrightarrow> pause_loop (events w) \<noteq> None"
  shows "returned (run_round G speed p scr w) = Some [A, B]"
proof -
  obtain tw rw where wb: "wait_budgets scr speed = (tw, rw)"
    by (cases "wait_budgets scr speed")
  let ?n = "int (length (agents w))"
  let ?j0 = "nat ((- 1 + 1) mod ?n)"
  have j0: "?j0 < length (agents w)" using ags by simp
  then have "agents w ! ?j0 \<in> set (agents w)" by (rule nth_mem)
  with dA obtain a m where
    d0: "decide (agents w ! ?j0) (memory (agents w ! ?j0)) A = Inr (a, m)"
    and a0: "act (state_class G) A a = Inr (Some B)" by blast
  have fresh: "B \<notin> set [A]" using neq by simp
  from turn_fresh [OF tA ags d0 a0 fresh pz, of tw] obtain w' where
    s1: "turn_loop G tw p A [A] (- 1) w = turn_loop G tw p B ([A] @ [B]) ((- 1 + 1) mod ?n) w'"
    and u1: "untouched w w'" by blast
  have len: "length (agents w') = length (agents w)" using u1 by (rule untouched_length)
  have ags': "agents w' \<noteq> []" using ags len by auto
  let ?i1 = "(- 1 + 1) mod ?n"
  let ?j1 = "nat ((?i1 + 1) mod int (length (agents w')))"
  have j1: "?j1 < length (agents w)" using ags len turn_index [of "length (agents w)"] by simp
  then have "agents w ! ?j1 \<in> set (agents w)" by (rule nth_mem)
  with dB have "\<exists>b m'. decide (agents w ! ?j1) (memory (agents w' ! ?j1)) B = Inr (b, m')
      \<and> act (state_class G) B b = Inr (Some A)" by blast
  then obtain b m' where
    d1: "decide (agents w' ! ?j1) (memory (agents w' ! ?j1)) B = Inr (b, m')"
    and a1: "act (state_class G) B b = Inr (Some A)"
    using agents_nth_decide [OF u1 j1] by auto
  have rep: "A \<in> set ([A] @ [B])" by simp
  from turn_repeat [OF tB ags' d1 a1 rep, of tw p] obtain w'' where
    s2: "turn_loop G tw p B ([A] @ [B]) ?i1 w' = Some (Returned ([A] @ [B]) w'')"
    and u2: "untouched w' w''" by blast
  have u: "untouched w w''" using u1 u2 by (rule untouched_trans)
  have loop: "turn_loop G tw p A [A] (- 1) w = Some (Returned [A, B] w'')"
    using s1 s2 by simp
  have "\<forall>j<length (agents w''). \<exists>m. learn (agents w'' ! j) (memory (agents w'' ! j)) [A, B] (0 + j) = Inr m"
  proof (intro allI impI)
    fix j assume "j < length (agents w'')"
    then have j: "j < length (agents w)" using u by (simp add: untouched_length)
    then have "agents w ! j \<in> set (agents w)" by (rule nth_mem)
    with lr have "\<exists>m. learn (agents w ! j) (memory (agents w'' ! j)) [A, B] (0 + j) = Inr m"
      by blast
    then show "\<exists>m. learn (agents w'' ! j) (memory (agents w'' ! j)) [A, B] (0 + j) = Inr m"
      using agents_nth_learn [OF u j] by simp
  qed
  then have ll: "learn_loop [A, B] 0 (agents w'')
      = (None, map (\<lambda>(player_id, agent). learned [A, B] player_id agent) (enumerate 0 (agents w'')))"
    by (rule learn_loop_all)
  show ?thesis
    using init wb loop ll by (simp add: run_round_def draw_state_def)
qed

theorem two_cycle_stops_at_repeat_witness:
  "returned (run_round (flip_game True) 0 False (Some (Surface 0)) (world0 [player 0, player 0]))
     = Some [0, 1]"
proof -
  have "returned (run_round (flip_game True) 0 False (Some (Surface 0)) (world0 [player 0, player 0]))
     = Some [0, 1 :: nat]"
    by (rule two_cycle_stops_at_repeat) (simp_all add: example_defs)
  then show ?thesis .
qed

text \<open>The trajectory of the two-state cycle has length 2 and is not \<open>[0, 1, 0]\<close>.\<close>

theorem two_cycle_counterexample:
  "\<exists>t. returned (run_round (flip_game False) 0 False None (world0 [player 0])) = Some t
       \<and> t = [0, 1] \<and> length t \<noteq> 3 \<and> t \<noteq> [0, 1, 0]"
  by (simp add: engine_defs example_defs turn_loop.simps decide_loop.simps)

subsection \<open>Learning\<close>

lemma count_turns_two_players:
  "\<exists>w1. turn_loop (count_game False) (fst (wait_budgets None 2)) False 0 [0] (- 1)
           (world0 [player 1, player 1]) = Some (Returned [0, 1, 2] w1)
        \<and> agents w1 = [player 1, player 1]"
  by (simp add: engine_defs example_defs turn_loop.simps decide_loop.simps)

lemma count_turns_dunce:
  "\<exists>w1. turn_loop (count_game False) (fst (wait_budgets None 2)) False 0 [0] (- 1)
           (world0 [player 1, dunce]) = Some (Returned [0, 1, 2] w1)
        \<and> agents w1 = [player 1, dunce]"
  by (simp add: engine_defs example_defs turn_loop.simps decide_loop.simps)

text \<open>
  C6. After the turns of a round, \<^verbatim>\<open>learn\<close> is called in list order with the trajectory
  and the agent's index. If every call returns, the round returns the trajectory and
  every agent has learned; if the call of agent \<open>j\<close> is the first to raise, the round
  raises that exception, with only the agents before \<open>j\<close> having learned.
\<close>

theorem learn_runs_until_first_failure:
  assumes "game_type G (agents w) = Some s0"
    and "turn_loop G (fst (wait_budgets scr speed)) p s0 [s0] (- 1) w = Some (Returned states w1)"
  shows
    "((\<forall>j<length (agents w1). \<exists>m. learn (agents w1 ! j) (memory (agents w1 ! j)) states j = Inr m)
        \<longrightarrow> run_round G speed p scr w
            = Some (Returned states
                (wait (snd (wait_budgets scr speed))
                   (w1\<lparr>agents := learned_all states (agents w1)\<rparr>))))
     \<and> (\<forall>j e. j < length (agents w1)
          \<and> learn (agents w1 ! j) (memory (agents w1 ! j)) states j = Inl e
          \<and> (\<forall>i<j. \<exists>m. learn (agents w1 ! i) (memory (agents w1 ! i)) states i = Inr m)
        \<longrightarrow> run_round G speed p scr w
            = Some (Raised e
                (w1\<lparr>agents := learned_all states (take j (agents w1)) @ drop j (agents w1)\<rparr>)))"
proof -
  obtain tw rw where wb: "wait_budgets scr speed = (tw, rw)"
    by (cases "wait_budgets scr speed")
  from assms(2) wb have loop: "turn_loop G tw p s0 [s0] (- 1) w = Some (Returned states w1)"
    by simp
  show ?thesis
  proof (intro conjI allI impI)
    assume "\<forall>j<length (agents w1).
        \<exists>m. learn (agents w1 ! j) (memory (agents w1 ! j)) states j = Inr m"
    then have "learn_loop states 0 (agents w1) = (None, learned_all states (agents w1))"
      using learn_loop_all [of "agents w1" states 0] by (simp add: learned_all_def)
    with assms(1) loop wb show "run_round G speed p scr w
        = Some (Returned states
            (wait (snd (wait_budgets scr speed))
               (w1\<lparr>agents := learned_all states (agents w1)\<rparr>)))"
      by (simp add: run_round_def draw_state_def)
  next
    fix j e
    assume h: "j < length (agents w1)
        \<and> learn (agents w1 ! j) (memory (agents w1 ! j)) states j = Inl e
        \<and> (\<forall>i<j. \<exists>m. learn (agents w1 ! i) (memory (agents w1 ! i)) states i = Inr m)"
    then have "learn_loop states 0 (agents w1)
        = (Some e, learned_all states (take j (agents w1)) @ drop j (agents w1))"
      using learn_loop_first_failure [of j "agents w1" states 0 e]
      by (simp add: learned_all_def)
    with assms(1) loop wb show "run_round G speed p scr w
        = Some (Raised e
            (w1\<lparr>agents := learned_all states (take j (agents w1)) @ drop j (agents w1)\<rparr>))"
      by (simp add: run_round_def draw_state_def)
  qed
qed

theorem learn_runs_until_first_failure_witness:
  "returned (run_round (count_game False) 2 False None (world0 [player 1, player 1]))
     = Some [0, 1, 2]
   \<and> memories_of (run_round (count_game False) 2 False None (world0 [player 1, player 1]))
     = [[0, 3], [1, 3]]
   \<and> raised (run_round (count_game False) 2 False None (world0 [player 1, dunce]))
     = Some (Exception ''learn failed'')
   \<and> memories_of (run_round (count_game False) 2 False None (world0 [player 1, dunce]))
     = [[0, 3], []]"
proof -
  have g: "\<And>ags. game_type (count_game False) (agents (world0 ags)) = Some 0"
    by (simp add: example_defs)
  from count_turns_two_players obtain w1 where
    l1: "turn_loop (count_game False) (fst (wait_budgets None 2)) False 0 [0] (- 1)
           (world0 [player 1, player 1]) = Some (Returned [0, 1, 2] w1)"
    and a1: "agents w1 = [player 1, player 1]" by blast
  have t1: "\<forall>j<length (agents w1).
      \<exists>m. learn (agents w1 ! j) (memory (agents w1 ! j)) [0, 1, 2] j = Inr m"
    by (auto simp add: a1 player_def less_Suc_eq)
  have r1: "run_round (count_game False) 2 False None (world0 [player 1, player 1])
      = Some (Returned [0, 1, 2]
          (wait (snd (wait_budgets None 2))
             (w1\<lparr>agents := learned_all [0, 1, 2] (agents w1)\<rparr>)))"
    using learn_runs_until_first_failure [OF g l1, THEN conjunct1] t1 by blast
  from count_turns_dunce obtain w2 where
    l2: "turn_loop (count_game False) (fst (wait_budgets None 2)) False 0 [0] (- 1)
           (world0 [player 1, dunce]) = Some (Returned [0, 1, 2] w2)"
    and a2: "agents w2 = [player 1, dunce]" by blast
  have t2: "1 < length (agents w2)
      \<and> learn (agents w2 ! 1) (memory (agents w2 ! 1)) [0, 1, 2] 1 = Inl (Exception ''learn failed'')
      \<and> (\<forall>i<1. \<exists>m. learn (agents w2 ! i) (memory (agents w2 ! i)) [0, 1, 2] i = Inr m)"
    by (simp add: a2 player_def dunce_def)
  have r2: "run_round (count_game False) 2 False None (world0 [player 1, dunce])
      = Some (Raised (Exception ''learn failed'')
          (w2\<lparr>agents := learned_all [0, 1, 2] (take 1 (agents w2)) @ drop 1 (agents w2)\<rparr>))"
    using learn_runs_until_first_failure [OF g l2, THEN conjunct2] t2 by blast
  show ?thesis
    unfolding r1 r2
    by (simp add: a1 a2 wait_def learned_all_def learned_def player_def dunce_def)
qed

text \<open>
  An exception of \<^verbatim>\<open>learn\<close> leaves the round and the session, and the agents after the
  one that raised do not learn.
\<close>

theorem learn_failure_counterexample:
  "raised (run_round (count_game False) 2 False None (world0 [dunce, player 1]))
     = Some (Exception ''learn failed'')
   \<and> memories_of (run_round (count_game False) 2 False None (world0 [dunce, player 1]))
     = [[], []]
   \<and> raised (run_game (count_game False) [] None PyNone 2 False (world0 [dunce, player 1]))
     = Some (Exception ''learn failed'')
   \<and> memories_of (run_round (count_game False) 2 False None (world0 [player 1, player 1]))
     = [[0, 3], [1, 3]]"
  by (subst run_game.simps)
    (simp add: engine_defs example_defs turn_loop.simps decide_loop.simps)

subsection \<open>Rendering\<close>

text \<open>A round leaves the screen and the lock as they were.\<close>

lemma decide_loop_untouched:
  assumes "decide_loop G i state w = Some r"
  shows "untouched w (final r)"
proof (rule decide_loop.raw_induct
    [where P = "\<lambda>G i state w r. untouched w (final r)", OF _ assms], goal_cases)
  case (1 f G i state w r)
  show ?case
  proof (cases "decide (agents w ! i) (memory (agents w ! i)) state")
    case (Inl e)
    with 1(2) show ?thesis by (auto simp: now_def untouched_def)
  next
    case (Inr am)
    obtain a m where am: "am = (a, m)" by (cases am)
    let ?w2 = "w\<lparr>reads := Suc (reads w), agents := (agents w)[i := (agents w ! i)\<lparr>memory := m\<rparr>]\<rparr>"
    have u2: "untouched w ?w2" by (rule untouched_step)
    show ?thesis
    proof (cases "act (state_class G) state a")
      case (Inl e)
      with 1(2) Inr am u2 show ?thesis by (auto simp: now_def)
    next
      case act: (Inr ns)
      show ?thesis
      proof (cases ns)
        case None
        with 1(2) Inr am act have "f G i state (info ''Invalid action performed!'' ?w2) = Some r"
          by (simp add: now_def)
        from 1(1) [OF this] have "untouched ?w2 (final r)" by (simp add: untouched_def info_def)
        with u2 show ?thesis by (rule untouched_trans)
      next
        case (Some new_state)
        with 1(2) Inr am act u2 show ?thesis
          by (auto simp: now_def untouched_info split: if_splits)
      qed
    qed
  qed
qed

lemma untouched_reads: "untouched w (w'\<lparr>reads := k\<rparr>) = untouched w w'"
  by (simp add: untouched_def)

lemma untouched_events: "untouched w (w'\<lparr>events := es\<rparr>) = untouched w w'"
  by (simp add: untouched_def)

lemma untouched_from_info: "untouched (info msg w) w' = untouched w w'"
  by (simp add: untouched_def info_def)

lemma untouched_from_wait: "untouched (wait ms w) w' = untouched w w'"
  by (simp add: untouched_def wait_def)

lemma untouched_from_reads: "untouched (w\<lparr>reads := k\<rparr>) w' = untouched w w'"
  by (simp add: untouched_def)

lemma untouched_from_events: "untouched (w\<lparr>events := es\<rparr>) w' = untouched w w'"
  by (simp add: untouched_def)

lemmas untouched_simps =
  untouched_info untouched_wait untouched_reads untouched_events
  untouched_from_info untouched_from_wait untouched_from_reads untouched_from_events

lemma turn_loop_untouched:
  assumes "turn_loop G tw p state states i w = Some r"
  shows "untouched w (final r)"
proof (rule turn_loop.raw_induct
    [where P = "\<lambda>G tw p state states i w r. untouched w (final r)", OF _ assms], goal_cases)
  case (1 f G tw p state states i w r)
  show ?case
  proof (cases "is_terminal (state_class G) state")
    case (Inl e)
    with 1(2) show ?thesis by (auto simp: untouched_refl)
  next
    case (Inr terminal)
    show ?thesis
    proof (cases "terminal \<or> length (agents w) = 0")
      case True
      with 1(2) Inr show ?thesis by (auto simp: untouched_refl split: if_splits)
    next
      case False
      let ?j = "nat ((i + 1) mod int (length (agents w)))"
      from False 1(2) Inr obtain d where d: "decide_loop G ?j state w = Some d"
        by (cases "decide_loop G ?j state w") auto
      from decide_loop_untouched [OF d] have ud: "untouched w (final d)" .
      show ?thesis
      proof (cases d)
        case (Raised e w1)
        with False 1(2) Inr d ud show ?thesis by auto
      next
        case (Returned x w1)
        obtain new_state start_t where x: "x = (new_state, start_t)" by (cases x)
        from ud Returned have u1: "untouched w w1" by simp
        show ?thesis
        proof (cases "new_state \<in> set states")
          case True
          with False 1(2) Inr d Returned x u1 show ?thesis
            by (auto simp: draw_state_def untouched_simps)
        next
          case fresh: False
          show ?thesis
          proof (cases "if p then map_option (\<lambda>es. w1\<lparr>reads := Suc (reads w1), events := es\<rparr>)
                (pause_loop (events w1)) else Some (w1\<lparr>reads := Suc (reads w1)\<rparr>)")
            case None
            with False fresh 1(2) Inr d Returned x show ?thesis
              by (auto simp: draw_state_def now_def split: if_splits)
          next
            case (Some w4)
            then have u4: "untouched w1 w4"
              by (auto simp: untouched_simps untouched_refl split: if_splits)
            let ?w5 = "if 0 < tw - (clock w1 (reads w1) - start_t) \<and> display G
                 then wait (tw - (clock w1 (reads w1) - start_t)) w4 else w4"
            from False fresh 1(2) Inr d Returned x Some
            have "f G tw p new_state (states @ [new_state]) ((i + 1) mod int (length (agents w))) ?w5
                = Some r"
              by (auto simp: draw_state_def now_def split: if_splits)
            from 1(1) [OF this] have "untouched ?w5 (final r)" .
            then have "untouched w4 (final r)" by (simp add: untouched_simps split: if_splits)
            with u1 u4 show ?thesis by (blast intro: untouched_trans)
          qed
        qed
      qed
    qed
  qed
qed

lemma learn_loop_methods:
  "map decide (snd (learn_loop states k ags)) = map decide ags
   \<and> map learn (snd (learn_loop states k ags)) = map learn ags"
proof (induction ags arbitrary: k)
  case Nil
  show ?case by simp
next
  case (Cons ag ags)
  obtain e rest where ll: "learn_loop states (Suc k) ags = (e, rest)"
    by (cases "learn_loop states (Suc k) ags")
  from Cons.IH [of "Suc k"] ll
  have "map decide rest = map decide ags \<and> map learn rest = map learn ags" by simp
  then show ?case using ll by (cases "learn ag (memory ag) states k") auto
qed

lemma run_round_untouched:
  assumes "run_round G speed p scr w = Some r"
  shows "untouched w (final r)"
proof -
  obtain tw rw where wb: "wait_budgets scr speed = (tw, rw)"
    by (cases "wait_budgets scr speed")
  show ?thesis
  proof (cases "game_type G (agents w)")
    case None
    with assms show ?thesis by (auto simp: run_round_def untouched_refl)
  next
    case (Some s0)
    with assms wb obtain t where t: "turn_loop G tw p s0 [s0] (- 1) w = Some t"
      by (cases "turn_loop G tw p s0 [s0] (- 1) w") (auto simp: run_round_def draw_state_def)
    from turn_loop_untouched [OF t] have ut: "untouched w (final t)" .
    show ?thesis
    proof (cases t)
      case (Raised e w1)
      with assms wb Some t ut show ?thesis by (auto simp: run_round_def draw_state_def)
    next
      case (Returned sts w1)
      obtain e ags where ll: "learn_loop sts 0 (agents w1) = (e, ags)"
        by (cases "learn_loop sts 0 (agents w1)")
      from learn_loop_methods [of sts 0 "agents w1"] ll
      have "untouched w1 (w1\<lparr>agents := ags\<rparr>)" by (simp add: untouched_def)
      with ut Returned have "untouched w (w1\<lparr>agents := ags\<rparr>)"
        by (auto intro: untouched_trans)
      with assms wb Some t Returned ll show ?thesis
        by (cases e) (auto simp: run_round_def draw_state_def untouched_simps)
    qed
  qed
qed

text \<open>
  Games with the same rules, started in worlds that differ in their effects only, run the
  same round up to the effects.
\<close>

lemma same_rules_sym: "same_rules G G' \<Longrightarrow> same_rules G' G"
  by (simp add: same_rules_def)

lemma same_but_effects_sym: "same_but_effects w w' \<Longrightarrow> same_but_effects w' w"
  by (simp add: same_but_effects_def)

lemma same_but_effects_refl: "same_but_effects w w"
  by (simp add: same_but_effects_def)

lemma alike_sym: "alike r r' \<Longrightarrow> alike r' r"
  by (cases r; cases r') (auto simp: same_but_effects_def)

lemma alike_returned: "alike r r' \<Longrightarrow> returned (Some r') = returned (Some r)"
  by (cases r; cases r') auto

lemma decide_loop_alike:
  assumes "decide_loop G i state w = Some r"
  shows "\<forall>G' w'. same_rules G G' \<and> same_but_effects w w'
           \<longrightarrow> (\<exists>r'. decide_loop G' i state w' = Some r' \<and> alike r r')"
proof (rule decide_loop.raw_induct
    [where P = "\<lambda>G i state w r. \<forall>G' w'. same_rules G G' \<and> same_but_effects w w'
           \<longrightarrow> (\<exists>r'. decide_loop G' i state w' = Some r' \<and> alike r r')", OF _ assms], goal_cases)
  case (1 f G i state w r)
  show ?case
  proof (intro allI impI, elim conjE)
    fix G' w'
    assume sr: "same_rules G G'" and se: "same_but_effects w w'"
    from se have ag: "agents w' = agents w" and ck: "clock w' = clock w" and rd: "reads w' = reads w"
      by (simp_all add: same_but_effects_def)
    from sr have ac: "act (state_class G') = act (state_class G)"
      and tr: "truthy (state_class G') = truthy (state_class G)"
      by (simp_all add: same_rules_def)
    show "\<exists>r'. decide_loop G' i state w' = Some r' \<and> alike r r'"
    proof (cases "decide (agents w ! i) (memory (agents w ! i)) state")
      case (Inl e)
      with 1(2) have "r = Raised e (w\<lparr>reads := Suc (reads w)\<rparr>)" by (auto simp: now_def)
      moreover from Inl have "decide_loop G' i state w' = Some (Raised e (w'\<lparr>reads := Suc (reads w')\<rparr>))"
        by (subst decide_loop.simps) (simp add: now_def ag)
      ultimately show ?thesis using se by (simp add: same_but_effects_def)
    next
      case (Inr am)
      obtain a m where am: "am = (a, m)" by (cases am)
      let ?w2 = "w\<lparr>reads := Suc (reads w), agents := (agents w)[i := (agents w ! i)\<lparr>memory := m\<rparr>]\<rparr>"
      let ?w2' = "w'\<lparr>reads := Suc (reads w'), agents := (agents w')[i := (agents w' ! i)\<lparr>memory := m\<rparr>]\<rparr>"
      have se2: "same_but_effects ?w2 ?w2'" using se by (simp add: same_but_effects_def)
      show ?thesis
      proof (cases "act (state_class G) state a")
        case (Inl e)
        with 1(2) Inr am have "r = Raised e ?w2" by (auto simp: now_def)
        moreover from Inl Inr am have "decide_loop G' i state w' = Some (Raised e ?w2')"
          by (subst decide_loop.simps) (simp add: now_def ag ac)
        ultimately show ?thesis using se2 by simp
      next
        case act: (Inr ns)
        show ?thesis
        proof (cases ns)
          case None
          with 1(2) Inr am act have "f G i state (info ''Invalid action performed!'' ?w2) = Some r"
            by (simp add: now_def)
          moreover have "same_but_effects (info ''Invalid action performed!'' ?w2)
              (info ''Invalid action performed!'' ?w2')"
            using se by (simp add: same_but_effects_def info_def)
          ultimately obtain r' where
            "decide_loop G' i state (info ''Invalid action performed!'' ?w2') = Some r'"
            and "alike r r'"
            using 1(1) sr by blast
          moreover from None act Inr am
          have "decide_loop G' i state w'
              = decide_loop G' i state (info ''Invalid action performed!'' ?w2')"
            by (subst decide_loop.simps) (simp add: now_def ag ac)
          ultimately show ?thesis by simp
        next
          case (Some new_state)
          let ?e = "\<lambda>v. if truthy (state_class G) new_state then v
               else info ''Invalid action performed!'' v"
          from Some 1(2) Inr am act have "r = Returned (new_state, clock w (reads w)) (?e ?w2)"
            by (auto simp: now_def)
          moreover from Some act Inr am
          have "decide_loop G' i state w' = Some (Returned (new_state, clock w (reads w)) (?e ?w2'))"
            by (subst decide_loop.simps) (simp add: now_def ag ac tr ck rd)
          moreover have "same_but_effects (?e ?w2) (?e ?w2')"
            using se by (simp add: same_but_effects_def info_def)
          ultimately show ?thesis by simp
        qed
      qed
    qed
  qed
qed

lemma turn_loop_alike:
  assumes "turn_loop G tw p state states i w = Some r"
  shows "\<forall>G' w'. same_rules G G' \<and> same_but_effects w w'
           \<longrightarrow> (\<exists>r'. turn_loop G' tw p state states i w' = Some r' \<and> alike r r')"
proof (rule turn_loop.raw_induct
    [where P = "\<lambda>G tw p state states i w r. \<forall>G' w'. same_rules G G' \<and> same_but_effects w w'
           \<longrightarrow> (\<exists>r'. turn_loop G' tw p state states i w' = Some r' \<and> alike r r')",
      OF _ assms], goal_cases)
  case (1 f G tw p state states i w r)
  show ?case
  proof (intro allI impI, elim conjE)
    fix G' w'
    assume sr: "same_rules G G'" and se: "same_but_effects w w'"
    from se have ag: "agents w' = agents w" by (simp add: same_but_effects_def)
    from sr have it: "is_terminal (state_class G') = is_terminal (state_class G)"
      by (simp add: same_rules_def)
    show "\<exists>r'. turn_loop G' tw p state states i w' = Some r' \<and> alike r r'"
    proof (cases "is_terminal (state_class G) state")
      case (Inl e)
      with 1(2) have "r = Raised e w" by simp
      moreover from Inl have "turn_loop G' tw p state states i w' = Some (Raised e w')"
        by (subst turn_loop.simps) (simp add: it)
      ultimately show ?thesis using se by simp
    next
      case (Inr terminal)
      show ?thesis
      proof (cases "terminal \<or> length (agents w) = 0")
        case True
        with 1(2) Inr have "r = (if terminal then Returned states w else Raised ZeroDivisionError w)"
          by (auto split: if_splits)
        moreover from True Inr have "turn_loop G' tw p state states i w'
            = Some (if terminal then Returned states w' else Raised ZeroDivisionError w')"
          by (subst turn_loop.simps) (auto simp add: it ag)
        ultimately show ?thesis using se by simp
      next
        case False
        let ?j = "nat ((i + 1) mod int (length (agents w)))"
        from False 1(2) Inr obtain d where d: "decide_loop G ?j state w = Some d"
          by (cases "decide_loop G ?j state w") auto
        from decide_loop_alike [OF d] sr se obtain d' where
          d': "decide_loop G' ?j state w' = Some d'" and al: "alike d d'" by blast
        have step: "turn_loop G' tw p state states i w'
            = (case d' of
                 Raised e w1 \<Rightarrow> Some (Raised e w1)
               | Returned (new_state, start_t) w1 \<Rightarrow>
                   (case draw_state G' new_state w1 of (g, w2) \<Rightarrow>
                      if new_state \<in> set states
                      then Some (Returned states
                             (info ''State has been repeated! Therefore, game is over.'' w2))
                      else
                        (case now w2 of (end_t, w3) \<Rightarrow>
                           (case (if p
                                  then map_option (\<lambda>es. w3\<lparr>events := es\<rparr>) (pause_loop (events w3))
                                  else Some w3) of
                              None \<Rightarrow> None
                            | Some w4 \<Rightarrow>
                                turn_loop G' tw p new_state (states @ [new_state])
                                  ((i + 1) mod int (length (agents w')))
                                  (if tw - (end_t - start_t) > 0 \<and> display G'
                                   then wait (tw - (end_t - start_t)) w4
                                   else w4)))))"
        proof -
          have len: "agents w' \<noteq> []" using False ag by simp
          have nt: "is_terminal (state_class G') state = Inr False" using False Inr it by simp
          have dd: "decide_loop G' (nat ((i + 1) mod int (length (agents w')))) state w' = Some d'"
            using d' ag by simp
          show ?thesis by (subst turn_loop.simps) (simp add: nt len dd)
        qed
        show ?thesis
        proof (cases d)
          case (Raised e w1)
          with al obtain w1' where dr: "d' = Raised e w1'" and s1: "same_but_effects w1 w1'"
            by (cases d') auto
          from False 1(2) Inr d Raised have "r = Raised e w1" by auto
          with step dr s1 show ?thesis by simp
        next
          case (Returned x w1)
          obtain new_state start_t where x: "x = (new_state, start_t)" by (cases x)
          from al Returned x obtain w1' where
            dr: "d' = Returned (new_state, start_t) w1'" and s1: "same_but_effects w1 w1'"
            by (cases d') auto
          show ?thesis
          proof (cases "new_state \<in> set states")
            case True
            with False 1(2) Inr d Returned x
            have "r = Returned states
                (info ''State has been repeated! Therefore, game is over.'' w1)"
              by (auto simp: draw_state_def)
            moreover from True step dr
            have "turn_loop G' tw p state states i w' = Some (Returned states
                (info ''State has been repeated! Therefore, game is over.'' w1'))"
              by (simp add: draw_state_def)
            ultimately show ?thesis using s1 by (simp add: same_but_effects_def info_def)
          next
            case fresh: False
            from s1 have ev: "events w1' = events w1" and ck: "clock w1' = clock w1"
              and rd: "reads w1' = reads w1" by (simp_all add: same_but_effects_def)
            show ?thesis
            proof (cases "p \<and> pause_loop (events w1) = None")
              case True
              with False fresh 1(2) Inr d Returned x have False
                by (auto simp: draw_state_def now_def)
              then show ?thesis ..
            next
              case go: False
              define w4 where "w4 = (if p then w1\<lparr>reads := Suc (reads w1), events := the (pause_loop (events w1))\<rparr>
                  else w1\<lparr>reads := Suc (reads w1)\<rparr>)"
              define w4' where "w4' = (if p then w1'\<lparr>reads := Suc (reads w1'), events := the (pause_loop (events w1'))\<rparr>
                  else w1'\<lparr>reads := Suc (reads w1')\<rparr>)"
              define wt where "wt = tw - (clock w1 (reads w1) - start_t)"
              define w5 where "w5 = (if wt > 0 \<and> display G then wait wt w4 else w4)"
              define w5' where "w5' = (if wt > 0 \<and> display G' then wait wt w4' else w4')"
              have s5: "same_but_effects w5 w5'"
                using s1 by (simp add: w5_def w5'_def w4_def w4'_def same_but_effects_def wait_def)
              from go False fresh 1(2) Inr d Returned x
              have "f G tw p new_state (states @ [new_state])
                  ((i + 1) mod int (length (agents w))) w5 = Some r"
                by (auto simp: draw_state_def now_def w5_def w4_def wt_def split: if_splits)
              with 1(1) sr s5 obtain r' where
                r': "turn_loop G' tw p new_state (states @ [new_state])
                  ((i + 1) mod int (length (agents w))) w5' = Some r'" and a': "alike r r'"
                by blast
              from go fresh step dr
              have "turn_loop G' tw p state states i w'
                  = turn_loop G' tw p new_state (states @ [new_state])
                      ((i + 1) mod int (length (agents w))) w5'"
                by (auto simp: draw_state_def now_def w5'_def w4'_def wt_def ev ck rd ag
                    split: if_splits)
              with r' a' show ?thesis by simp
            qed
          qed
        qed
      qed
    qed
  qed
qed

lemma run_round_alike:
  assumes "run_round G speed p scr w = Some r" and sr: "same_rules G G'"
  shows "\<exists>r'. run_round G' speed p scr w = Some r' \<and> alike r r'"
proof -
  obtain tw rw where wb: "wait_budgets scr speed = (tw, rw)"
    by (cases "wait_budgets scr speed")
  from sr have gt: "game_type G' = game_type G" by (simp add: same_rules_def)
  show ?thesis
  proof (cases "game_type G (agents w)")
    case None
    with assms(1) gt show ?thesis
      by (auto simp: run_round_def same_but_effects_refl)
  next
    case (Some s0)
    with assms(1) wb obtain t where t: "turn_loop G tw p s0 [s0] (- 1) w = Some t"
      by (cases "turn_loop G tw p s0 [s0] (- 1) w") (auto simp: run_round_def draw_state_def)
    from turn_loop_alike [OF t] sr same_but_effects_refl [of w] obtain t' where
      t': "turn_loop G' tw p s0 [s0] (- 1) w = Some t'" and al: "alike t t'" by blast
    show ?thesis
    proof (cases t)
      case (Raised e w1)
      with al obtain w1' where "t' = Raised e w1'" and "same_but_effects w1 w1'"
        by (cases t') auto
      with assms(1) wb Some t t' Raised gt show ?thesis
        by (auto simp: run_round_def draw_state_def)
    next
      case (Returned sts w1)
      with al obtain w1' where r': "t' = Returned sts w1'" and s1: "same_but_effects w1 w1'"
        by (cases t') auto
      from s1 have ag: "agents w1' = agents w1" by (simp add: same_but_effects_def)
      obtain e ags where ll: "learn_loop sts 0 (agents w1) = (e, ags)"
        by (cases "learn_loop sts 0 (agents w1)")
      have s2: "same_but_effects (w1\<lparr>agents := ags\<rparr>) (w1'\<lparr>agents := ags\<rparr>)"
        using s1 by (simp add: same_but_effects_def)
      then have s3: "same_but_effects (wait rw (w1\<lparr>agents := ags\<rparr>)) (wait rw (w1'\<lparr>agents := ags\<rparr>))"
        by (simp add: same_but_effects_def wait_def)
      from assms(1) wb Some t t' Returned r' gt ll ag s2 s3 show ?thesis
        by (cases e) (auto simp: run_round_def draw_state_def)
    qed
  qed
qed

lemma alike_raised: "alike r r' \<Longrightarrow> raised (Some r') = raised (Some r)"
  by (cases r; cases r') auto

lemma run_round_same_result:
  assumes "same_rules G G'"
  shows "returned (run_round G' speed p scr w) = returned (run_round G speed p scr w)
       \<and> raised (run_round G' speed p scr w) = raised (run_round G speed p scr w)"
proof (cases "run_round G speed p scr w")
  case (Some r)
  from run_round_alike [OF Some assms] obtain r' where
    "run_round G' speed p scr w = Some r'" and "alike r r'" by blast
  with Some show ?thesis by (simp add: alike_returned alike_raised del: returned.simps raised.simps)
next
  case None
  show ?thesis
  proof (cases "run_round G' speed p scr w")
    case (Some r')
    from run_round_alike [OF Some same_rules_sym [OF assms]] None show ?thesis by auto
  next
    case None': None
    with None show ?thesis by simp
  qed
qed

text \<open>
  C9. The calls \<^verbatim>\<open>self._draw_state(state)\<close> and \<^verbatim>\<open>self._play_again()\<close> return a generator
  object and change nothing; a round that comes back has painted nothing and left the
  lock alone; and the trajectory a round returns, or the exception it raises, is the same
  for any game with the same rules, whatever its \<^verbatim>\<open>display\<close>, \<^verbatim>\<open>screen\<close> and \<^verbatim>\<open>draw\<close>.
  Were the bodies iterated: with display off, \<^verbatim>\<open>_draw_state\<close> would end at once and
  \<^verbatim>\<open>_play_again\<close> would return the answer of the command line; with display on and
  \<^verbatim>\<open>self.screen\<close> never assigned, \<^verbatim>\<open>_play_again\<close> would fail on reading \<^verbatim>\<open>self.screen\<close>
  once the label is rendered.
\<close>

theorem rendering_never_runs:
  assumes "same_rules G G'"
  shows "draw_state G state w = (Gen_draw_state state, w)
     \<and> play_again G w = (Gen_play_again, w)
     \<and> run_display G scr' game_thread w = (Gen_run_display, w)
     \<and> (\<forall>r. run_round G speed p scr w = Some r
           \<longrightarrow> painted (final r) = painted w \<and> locked (final r) = locked w)
     \<and> returned (run_round G' speed p scr w) = returned (run_round G speed p scr w)
     \<and> raised (run_round G' speed p scr w) = raised (run_round G speed p scr w)
     \<and> (\<not> display G \<longrightarrow> draw_state_body G state w = Finished () w
           \<and> play_again_body G ask fonts w = Finished ask w)
     \<and> (display G \<and> screen G = None
           \<longrightarrow> play_again_body G ask None w = Failed AttributeError w)"
proof -
  have "\<forall>r. run_round G speed p scr w = Some r
           \<longrightarrow> painted (final r) = painted w \<and> locked (final r) = locked w"
    using run_round_untouched [of G speed p scr w] by (auto simp: untouched_def)
  moreover note run_round_same_result [OF assms, of speed p scr w]
  ultimately show ?thesis
    by (simp add: draw_state_def play_again_def run_display_def draw_state_body_def
        play_again_body_def)
qed

text \<open>The counting game with and without display, at speed 0 with a screen.\<close>

theorem rendering_never_runs_witness:
  "same_rules (count_game True) (count_game False)
   \<and> returned (run_round (count_game False) 0 False (Some (Surface 0)) (world0 [player 1]))
       = Some [0, 1, 2]
   \<and> returned (run_round (count_game True) 0 False (Some (Surface 0)) (world0 [player 1]))
       = Some [0, 1, 2]
   \<and> play_again_body (count_game True) True None (world0 [player 1])
       = Failed AttributeError (world0 [player 1])"
proof -
  have sr: "same_rules (count_game True) (count_game False)"
    by (simp add: same_rules_def example_defs)
  have d: "display (count_game True) \<and> screen (count_game True) = None"
    by (simp add: example_defs)
  have r: "returned (run_round (count_game True) 0 False (Some (Surface 0)) (world0 [player 1]))
       = Some [0, 1, 2]"
    by (simp add: engine_defs example_defs turn_loop.simps decide_loop.simps)
  from rendering_never_runs [OF sr, where state = 0 and w = "world0 [player 1]" and speed = 0
      and p = False and scr = "Some (Surface 0)" and ask = True and fonts = None
      and scr' = None and game_thread = "()"]
    sr d r show ?thesis by simp
qed

text \<open>
  With display off and \<^verbatim>\<open>self.screen\<close> never assigned, the bodies of \<^verbatim>\<open>_draw_state\<close> and
  \<^verbatim>\<open>_play_again\<close> end without a failure.
\<close>

theorem bodies_end_without_display_counterexample:
  "screen (count_game False) = None
   \<and> draw_state_body (count_game False) 0 (world0 [player 1]) = Finished () (world0 [player 1])
   \<and> play_again_body (count_game False) True None (world0 [player 1])
       = Finished True (world0 [player 1])"
  by (simp add: draw_state_body_def play_again_body_def example_defs)

end
